theory Spec2Isabelle
  imports Complex_Main "HOL-Library.Sublist" "HOL-Library.Multiset"
begin

section \<open>Data model\<close>

text \<open>
  The script \<^verbatim>\<open>scripts/update-stats.js\<close> fetches contribution days, reduces them to
  three statistics, renders a badge block and patches it into the README.

  A contribution day is the object \<^verbatim>\<open>{ date, count }\<close> built by the aggregator.  The
  record is polymorphic in the type of \<^verbatim>\<open>count\<close>: the aggregator produces JavaScript
  numbers (type \<open>number\<close> below), while \<^verbatim>\<open>computeStats\<close> is verified over integer
  counts, which is what the data model of the specification states and what the
  provider's \<^verbatim>\<open>Int\<close> field supplies.  A count is a double that holds an integer.
\<close>

record 'n day =
  date :: string
  count :: 'n

text \<open>
  The value of \<^verbatim>\<open>total\<close>: a double that holds an integer, or an infinity once the sum
  has overflowed.  It starts at 0 and only integer counts are added to it, so it is
  never fractional and never \<^verbatim>\<open>NaN\<close>.
\<close>

datatype jsinteger = Integer int | PlusInfinity | MinusInfinity

record stats =
  total :: jsinteger
  longestStreak :: nat
  currentStreak :: nat

text \<open>
  Thrown values.  \<open>TypeError\<close> is what reading \<^verbatim>\<open>.count\<close> of \<^verbatim>\<open>undefined\<close> (an index
  out of range) raises; \<open>ENOENT\<close> is \<^verbatim>\<open>fs.readFileSync\<close> on a missing file;
  \<open>Error msg\<close> is \<^verbatim>\<open>new Error(msg)\<close>.
\<close>

datatype error = TypeError | ENOENT | Error string

section \<open>Addition of doubles that hold integers\<close>

text \<open>
  A double has a significand of 53 bits.  Every integer of magnitude up to \<open>2^53\<close> is a
  double; from there on the doubles are the multiples of \<open>ulp n\<close>, the power of two that
  leaves 53 significant bits (\<open>2\<close> from \<open>2^53\<close>, \<open>4\<close> from \<open>2^54\<close>, ...).
\<close>

function ulp :: "nat \<Rightarrow> nat" where
  "ulp n = (if n < 2 ^ 53 then 1 else 2 * ulp (n div 2))"
  by pat_completeness auto
termination
  by (relation "measure id") auto

declare ulp.simps [simp del]

text \<open>
  Rounding of a natural number to the nearest double, ties to the even significand
  (the rounding mode of JavaScript arithmetic).
\<close>

definition roundNat :: "nat \<Rightarrow> nat" where
  "roundNat n =
     (let u = ulp n; q = n div u; r = n mod u
      in if 2 * r < u \<or> (2 * r = u \<and> even q) then q * u else (q + 1) * u)"

text \<open>
  The double nearest to an integer.  The largest finite double is \<open>2^1024 - 2^971\<close>;
  what rounds to \<open>2^1024\<close> or beyond is an infinity.
\<close>

definition roundDouble :: "int \<Rightarrow> jsinteger" where
  "roundDouble x =
     (let m = roundNat (nat \<bar>x\<bar>)
      in if 2 ^ 1024 \<le> m then (if x < 0 then MinusInfinity else PlusInfinity)
         else Integer (if x < 0 then - int m else int m))"

text \<open>
  \<^verbatim>\<open>total + day.count\<close>: the exact sum, rounded to the nearest double; an infinity stays
  what it is when a finite count is added.
\<close>

fun jsAdd :: "jsinteger \<Rightarrow> int \<Rightarrow> jsinteger" where
  "jsAdd (Integer t) c = roundDouble (t + c)"
| "jsAdd PlusInfinity c = PlusInfinity"
| "jsAdd MinusInfinity c = MinusInfinity"

section \<open>computeStats\<close>

text \<open>
  The first loop of \<^verbatim>\<open>computeStats\<close> (\<^verbatim>\<open>for (const day of days)\<close>), with its three
  variables \<^verbatim>\<open>total\<close>, \<^verbatim>\<open>longestStreak\<close> and \<^verbatim>\<open>rolling\<close> as accumulators.
\<close>

fun statsLoop ::
  "int day list \<Rightarrow> jsinteger \<Rightarrow> nat \<Rightarrow> nat \<Rightarrow> jsinteger \<times> nat \<times> nat" where
  "statsLoop [] tot longest rolling = (tot, longest, rolling)"
| "statsLoop (d # days) tot longest rolling =
     (if count d > 0 then
        (if rolling + 1 > longest
         then statsLoop days (jsAdd tot (count d)) (rolling + 1) (rolling + 1)
         else statsLoop days (jsAdd tot (count d)) longest (rolling + 1))
      else statsLoop days (jsAdd tot (count d)) longest 0)"

text \<open>
  The second loop: \<^verbatim>\<open>for (let i = days.length - 1; i >= 0; i -= 1)\<close>.  The index is an
  integer, since it reaches \<open>-1\<close>; \<^verbatim>\<open>days[i]\<close> out of range is \<^verbatim>\<open>undefined\<close>, whose
  \<^verbatim>\<open>.count\<close> throws.
\<close>

function currentLoop :: "int day list \<Rightarrow> int \<Rightarrow> nat \<Rightarrow> error + nat" where
  "currentLoop days i cur =
     (if i \<ge> 0 then
        (if nat i < length days then
           (if count (days ! nat i) > 0
            then currentLoop days (i - 1) (cur + 1)
            else Inr cur)
         else Inl TypeError)
      else Inr cur)"
  by pat_completeness auto
termination
  by (relation "measure (\<lambda>(days, i, cur). nat (i + 1))") auto

declare currentLoop.simps [simp del]

definition computeStats :: "int day list \<Rightarrow> error + stats" where
  "computeStats days =
     (case statsLoop days (Integer 0) 0 0 of
        (tot, longest, rolling) \<Rightarrow>
          (case currentLoop days (int (length days) - 1) 0 of
             Inl e \<Rightarrow> Inl e
           | Inr cur \<Rightarrow>
               Inr \<lparr>total = tot, longestStreak = longest, currentStreak = cur\<rparr>))"

text \<open>The specification's words, as definitions to compare the code with.\<close>

definition positive :: "int day \<Rightarrow> bool" where
  "positive d = (count d > 0)"

text \<open>The lengths of the runs of consecutive entries (in sequence order) that all have
  a positive count.\<close>

definition positive_run_lengths :: "int day list \<Rightarrow> nat set" where
  "positive_run_lengths days =
     {length run | run. sublist run days \<and> (\<forall>d \<in> set run. count d > 0)}"

text \<open>The number of trailing entries with a positive count: scan backward from the end,
  stop at the first entry that is not positive or when the sequence is exhausted.\<close>

definition trailing_positive :: "int day list \<Rightarrow> nat" where
  "trailing_positive days = length (takeWhile positive (rev days))"


text \<open>Scenario A of the specification: counts 5, 0, 3, 2.\<close>

definition scenario_A :: "int day list" where
  "scenario_A =
     [\<lparr>date = ''d1'', count = 5\<rparr>, \<lparr>date = ''d2'', count = 0\<rparr>,
      \<lparr>date = ''d3'', count = 3\<rparr>, \<lparr>date = ''d4'', count = 2\<rparr>]"

text \<open>
  The same three entries in two orders: the count \<open>2^53\<close> first, and last.
\<close>

definition big_first :: "int day list" where
  "big_first =
     [\<lparr>date = ''d1'', count = 9007199254740992\<rparr>, \<lparr>date = ''d2'', count = 1\<rparr>,
      \<lparr>date = ''d3'', count = 1\<rparr>]"

definition big_last :: "int day list" where
  "big_last =
     [\<lparr>date = ''d2'', count = 1\<rparr>, \<lparr>date = ''d3'', count = 1\<rparr>,
      \<lparr>date = ''d1'', count = 9007199254740992\<rparr>]"

section \<open>Calendar aggregator: flattening one year's response\<close>

text \<open>
  A JavaScript number, as far as the aggregator looks at it: \<open>NaN\<close>, the two infinities,
  or a finite value (\<open>Finite 0\<close> stands for both zeros).
\<close>

datatype number = NaN | PosInfinity | NegInfinity | Finite rat

text \<open>
  A value found at \<^verbatim>\<open>day.contributionCount\<close> in a parsed JSON response; \<open>JUndefined\<close> is
  the missing property.  \<open>JObject s\<close> is an array or object whose conversion to a
  primitive is the string \<open>s\<close>.
\<close>

datatype jsvalue =
  JUndefined | JNull | JBoolean bool | JNumber number | JString string | JObject string

text \<open>
  \<^verbatim>\<open>Number(value)\<close>.  The conversion of a string to a number is a parameter of the model
  (\<open>StringToNumber\<close> of the language).
\<close>

fun Number :: "(string \<Rightarrow> number) \<Rightarrow> jsvalue \<Rightarrow> number" where
  "Number StringToNumber JUndefined = NaN"
| "Number StringToNumber JNull = Finite 0"
| "Number StringToNumber (JBoolean b) = (if b then Finite 1 else Finite 0)"
| "Number StringToNumber (JNumber n) = n"
| "Number StringToNumber (JString s) = StringToNumber s"
| "Number StringToNumber (JObject s) = StringToNumber s"

text \<open>Truthiness of a number: \<open>NaN\<close> and zero are falsy.  \<open>orZero n\<close> is \<^verbatim>\<open>n || 0\<close>.\<close>

definition ToBoolean :: "number \<Rightarrow> bool" where
  "ToBoolean n = (n \<noteq> NaN \<and> n \<noteq> Finite 0)"

definition orZero :: "number \<Rightarrow> number" where
  "orZero n = (if ToBoolean n then n else Finite 0)"

text \<open>
  The calendar of a response: weeks of days, each day with its \<^verbatim>\<open>date\<close> (field
  \<open>day_date\<close>) and its \<^verbatim>\<open>contributionCount\<close>.
\<close>

record contributionDay =
  day_date :: string
  contributionCount :: jsvalue

record week =
  contributionDays :: "contributionDay list"

record calendar =
  weeks :: "week list"

text \<open>The object literal \<^verbatim>\<open>{ date: day.date, count: Number(day.contributionCount) || 0 }\<close>.\<close>

definition toDay :: "(string \<Rightarrow> number) \<Rightarrow> contributionDay \<Rightarrow> number day" where
  "toDay StringToNumber d =
     \<lparr>date = day_date d, count = orZero (Number StringToNumber (contributionCount d))\<rparr>"

text \<open>\<^verbatim>\<open>calendar.weeks.flatMap((week) => week.contributionDays.map(...))\<close>.\<close>

definition flattenWeeks :: "(string \<Rightarrow> number) \<Rightarrow> calendar \<Rightarrow> number day list" where
  "flattenWeeks StringToNumber cal =
     concat (map (\<lambda>week. map (toDay StringToNumber) (contributionDays week)) (weeks cal))"

text \<open>
  The loop of \<^verbatim>\<open>fetchAllContributionDays\<close> over the years, given each year's calendar
  response in turn: \<^verbatim>\<open>days.push(...)\<close> appends the flattened days.  (The filter and the
  sort that follow drop and reorder entries; they do not touch a count.)
\<close>

fun pushCalendars :: "(string \<Rightarrow> number) \<Rightarrow> number day list \<Rightarrow> calendar list \<Rightarrow> number day list" where
  "pushCalendars StringToNumber days [] = days"
| "pushCalendars StringToNumber days (cal # cals) =
     pushCalendars StringToNumber (days @ flattenWeeks StringToNumber cal) cals"

text \<open>The specification's words: a count that is a non-negative integer.\<close>

fun nonneg_integer :: "number \<Rightarrow> bool" where
  "nonneg_integer (Finite q) = (0 \<le> q \<and> of_int \<lfloor>q\<rfloor> = q)"
| "nonneg_integer n = False"

text \<open>A response with one day, whose count is \<open>-1\<close>.\<close>

definition negative_calendar :: calendar where
  "negative_calendar =
     \<lparr>weeks = [\<lparr>contributionDays =
        [\<lparr>day_date = ''2024-01-01'', contributionCount = JNumber (Finite (- 1))\<rparr>]\<rparr>]\<rparr>"

text \<open>The days of the responses, in the order the loops visit them.\<close>

definition api_days :: "calendar list \<Rightarrow> contributionDay list" where
  "api_days cals = concat (map (\<lambda>cal. concat (map contributionDays (weeks cal))) cals)"

text \<open>The specification's words: every entry has a count that is a non-negative integer.\<close>

definition counts_nonneg_integers :: "number day list \<Rightarrow> bool" where
  "counts_nonneg_integers days = (\<forall>d \<in> set days. nonneg_integer (count d))"

text \<open>
  What the code does to one day: the date is copied, and the count is
  \<^verbatim>\<open>Number(contributionCount) || 0\<close>, which is never \<open>NaN\<close>, is 0 where the conversion
  gives \<open>NaN\<close> or zero (a missing count among them), and is the converted number
  otherwise, negative and fractional numbers included.
\<close>

definition coerced :: "(string \<Rightarrow> number) \<Rightarrow> contributionDay \<Rightarrow> number day \<Rightarrow> bool" where
  "coerced StringToNumber raw d =
     (let n = Number StringToNumber (contributionCount raw) in
      date d = day_date raw \<and>
      count d \<noteq> NaN \<and>
      (n = NaN \<or> n = Finite 0 \<longrightarrow> count d = Finite 0) \<and>
      (n \<noteq> NaN \<longrightarrow> count d = n) \<and>
      (contributionCount raw = JUndefined \<longrightarrow> count d = Finite 0) \<and>
      (nonneg_integer (count d) \<longleftrightarrow> nonneg_integer n \<or> n = NaN))"

text \<open>A response with a valid count, a missing count and a negative count.\<close>

definition mixed_calendar :: calendar where
  "mixed_calendar =
     \<lparr>weeks = [\<lparr>contributionDays =
        [\<lparr>day_date = ''2024-01-01'', contributionCount = JNumber (Finite 4)\<rparr>,
         \<lparr>day_date = ''2024-01-02'', contributionCount = JUndefined\<rparr>]\<rparr>,
       \<lparr>contributionDays =
        [\<lparr>day_date = ''2024-01-03'', contributionCount = JNumber (Finite (- 1))\<rparr>]\<rparr>]\<rparr>"

section \<open>Renderer\<close>

text \<open>
  Texts are character lists.  The markers and the rendered fragment are ASCII, and the
  pattern of the patcher compares and skips single characters only, so nothing below
  depends on how a character beyond ASCII is encoded.
\<close>

definition START_MARKER :: string where
  "START_MARKER = ''<!-- GITHUB-STATS:START -->''"

definition END_MARKER :: string where
  "END_MARKER = ''<!-- GITHUB-STATS:END -->''"

text \<open>
  How the runtime prints a number for the locale (\<^verbatim>\<open>toLocaleString('en-US')\<close>) is a
  parameter of the model, \<open>toLocaleString\<close> below.

  \<^verbatim>\<open>formatNumber = (value) => Number(value || 0).toLocaleString('en-US')\<close>.
\<close>

definition formatNumber :: "(jsinteger \<Rightarrow> string) \<Rightarrow> jsinteger \<Rightarrow> string" where
  "formatNumber toLocaleString v = toLocaleString (if v \<noteq> Integer 0 then v else Integer 0)"

text \<open>
  \<^verbatim>\<open>encodeURIComponent\<close>: letters, digits and \<^verbatim>\<open>- _ . ! ~ * ' ( )\<close> are kept, every other
  character is written as \<^verbatim>\<open>%XX\<close> with upper-case hexadecimal digits.
\<close>

definition unreserved :: "char \<Rightarrow> bool" where
  "unreserved c =
     (c \<in> set ''ABCDEFGHIJKLMNOPQRSTUVWXYZabcdefghijklmnopqrstuvwxyz0123456789-_.!~*()''
      \<or> c = CHR 0x27)"

definition hexDigit :: "nat \<Rightarrow> char" where
  "hexDigit n = ''0123456789ABCDEF'' ! (n mod 16)"

definition encodeChar :: "char \<Rightarrow> string" where
  "encodeChar c =
     (if unreserved c then [c]
      else [CHR ''%'', hexDigit (of_char c div 16), hexDigit (of_char c mod 16)])"

definition encodeURIComponent :: "string \<Rightarrow> string" where
  "encodeURIComponent s = concat (map encodeChar s)"

text \<open>The double quote and the line feed of the template literal.\<close>

definition dq :: string where
  "dq = [CHR 0x22]"

definition nl :: string where
  "nl = [CHR 0x0A]"

text \<open>The template literal of \<^verbatim>\<open>renderStats\<close>, line by line.\<close>

definition renderStats :: "(jsinteger \<Rightarrow> string) \<Rightarrow> stats \<Rightarrow> string" where
  "renderStats toLocaleString st =
     (let totalLabel = encodeURIComponent (formatNumber toLocaleString (total st));
          longestLabel = encodeURIComponent
            (formatNumber toLocaleString (Integer (int (longestStreak st))) @ '' day'' @
             (if longestStreak st = 1 then [] else ''s''));
          currentLabel = encodeURIComponent
            (formatNumber toLocaleString (Integer (int (currentStreak st))) @ '' day'' @
             (if currentStreak st = 1 then [] else ''s''))
      in START_MARKER @ nl @
         ''<p align='' @ dq @ ''center'' @ dq @ ''>'' @ nl @
         ''  <img src='' @ dq @ ''https://img.shields.io/badge/Total%20Commits-'' @ totalLabel @
           ''-2ea44f?style=for-the-badge&logo=github&labelColor=1c1c1c'' @ dq @
           '' alt='' @ dq @ ''Total commits badge'' @ dq @ '' />'' @ nl @
         ''  <img src='' @ dq @ ''https://img.shields.io/badge/Longest%20Streak-'' @ longestLabel @
           ''-1f6feb?style=for-the-badge&logo=github&labelColor=1c1c1c'' @ dq @
           '' alt='' @ dq @ ''Longest streak badge'' @ dq @ '' />'' @ nl @
         ''  <img src='' @ dq @ ''https://img.shields.io/badge/Current%20Streak-'' @ currentLabel @
           ''-bf4b8a?style=for-the-badge&logo=github&labelColor=1c1c1c'' @ dq @
           '' alt='' @ dq @ ''Current streak badge'' @ dq @ '' />'' @ nl @
         ''</p>'' @ nl @
         END_MARKER)"

section \<open>File patcher\<close>

text \<open>\<^verbatim>\<open>content.includes(marker)\<close>: the marker occurs somewhere in the content.\<close>

fun string_includes :: "string \<Rightarrow> string \<Rightarrow> bool" where
  "string_includes [] searchString = (searchString = [])"
| "string_includes (c # cs) searchString =
     (prefix searchString (c # cs) \<or> string_includes cs searchString)"

text \<open>
  The regular expression \<^verbatim>\<open>START_MARKER[\s\S]*?END_MARKER\<close> (the markers hold no character
  that is special in a pattern).  \<open>matchLazyEnd\<close> is the tail \<^verbatim>\<open>[\s\S]*?END_MARKER\<close> tried at
  the head of a string: the lazy star first tries to consume nothing, then one more
  character at a time; it returns what the star consumed and what follows the match.
\<close>

fun matchLazyEnd :: "string \<Rightarrow> (string \<times> string) option" where
  "matchLazyEnd [] = (if prefix END_MARKER [] then Some ([], []) else None)"
| "matchLazyEnd (c # cs) =
     (if prefix END_MARKER (c # cs) then Some ([], drop (length END_MARKER) (c # cs))
      else (case matchLazyEnd cs of
              None \<Rightarrow> None
            | Some (consumed, rest) \<Rightarrow> Some (c # consumed, rest)))"

text \<open>The whole pattern tried at the head of a string: the matched text and what follows.\<close>

definition matchPattern :: "string \<Rightarrow> (string \<times> string) option" where
  "matchPattern s =
     (if prefix START_MARKER s then
        (case matchLazyEnd (drop (length START_MARKER) s) of
           None \<Rightarrow> None
         | Some (consumed, rest) \<Rightarrow> Some (START_MARKER @ consumed @ END_MARKER, rest))
      else None)"

text \<open>
  The search of a regular expression without the global flag: the pattern is tried at
  index 0, 1, 2, ... up to the end of the string, and the first index where it matches
  wins.  The result is the text preceding the match, the match, and the text following it.
\<close>

fun regexExec :: "string \<Rightarrow> (string \<times> string \<times> string) option" where
  "regexExec [] =
     (case matchPattern [] of
        Some (matched, rest) \<Rightarrow> Some ([], matched, rest)
      | None \<Rightarrow> None)"
| "regexExec (c # cs) =
     (case matchPattern (c # cs) of
        Some (matched, rest) \<Rightarrow> Some ([], matched, rest)
      | None \<Rightarrow>
          (case regexExec cs of
             None \<Rightarrow> None
           | Some (preceding, matched, rest) \<Rightarrow> Some (c # preceding, matched, rest)))"

text \<open>
  The replacement text of \<^verbatim>\<open>String.prototype.replace\<close> for a pattern without capture
  groups: \<^verbatim>\<open>$$\<close> is a dollar sign, \<^verbatim>\<open>$&\<close> the matched text, \<^verbatim>\<open>$`\<close> the text preceding the
  match, \<^verbatim>\<open>$'\<close> the text following it; every other character stands for itself.
\<close>

fun getSubstitution :: "string \<Rightarrow> string \<Rightarrow> string \<Rightarrow> string \<Rightarrow> string" where
  "getSubstitution matched preceding following [] = []"
| "getSubstitution matched preceding following [c] = [c]"
| "getSubstitution matched preceding following (c # c' # template) =
     (if c = CHR ''$'' \<and> c' = CHR ''$'' then
        CHR ''$'' # getSubstitution matched preceding following template
      else if c = CHR ''$'' \<and> c' = CHR ''&'' then
        matched @ getSubstitution matched preceding following template
      else if c = CHR ''$'' \<and> c' = CHR 0x60 then
        preceding @ getSubstitution matched preceding following template
      else if c = CHR ''$'' \<and> c' = CHR 0x27 then
        following @ getSubstitution matched preceding following template
      else c # getSubstitution matched preceding following (c' # template))"

text \<open>\<^verbatim>\<open>content.replace(new RegExp(...), statsBlock)\<close>: the first match only.\<close>

definition replace :: "string \<Rightarrow> string \<Rightarrow> string" where
  "replace content replaceValue =
     (case regexExec content of
        None \<Rightarrow> content
      | Some (preceding, matched, following) \<Rightarrow>
          preceding @ getSubstitution matched preceding following replaceValue @ following)"

text \<open>
  The file system as far as the script touches it: the text of the file at
  \<^verbatim>\<open>README_PATH\<close> (\<open>None\<close> when there is no such file), and the texts that
  \<^verbatim>\<open>fs.writeFileSync\<close> has written to it, oldest first.
\<close>

record filesystem =
  readme :: "string option"
  writes :: "string list"

definition writeFileSync :: "string \<Rightarrow> filesystem \<Rightarrow> filesystem" where
  "writeFileSync text fs = fs\<lparr>readme := Some text, writes := writes fs @ [text]\<rparr>"

definition injectStats :: "string \<Rightarrow> filesystem \<Rightarrow> (error + unit) \<times> filesystem" where
  "injectStats statsBlock fs =
     (case readme fs of
        None \<Rightarrow> (Inl ENOENT, fs)
      | Some content \<Rightarrow>
          if \<not> string_includes content START_MARKER \<or> \<not> string_includes content END_MARKER
          then (Inl (Error ''README is missing required GITHUB-STATS markers.''), fs)
          else (Inr (), writeFileSync (replace content statsBlock) fs))"

text \<open>
  A printer of numbers for the examples: the decimal digits grouped in threes, which is
  what the runtime prints for an integer of magnitude below \<open>2^53\<close>, and the infinity
  sign (in UTF-8) for an infinity.  It stands for the parameter \<open>toLocaleString\<close> in
  the examples only.
\<close>

fun digits :: "nat \<Rightarrow> string" where
  "digits n =
     (if n < 10 then [char_of (48 + n)]
      else digits (n div 10) @ [char_of (48 + n mod 10)])"

declare digits.simps [simp del]

text \<open>Grouping of an integer's digits in threes from the right, separated by commas.\<close>

function groupThousands :: "string \<Rightarrow> string" where
  "groupThousands ds =
     (if length ds \<le> 3 then ds
      else groupThousands (take (length ds - 3) ds) @ '','' @ drop (length ds - 3) ds)"
  by pat_completeness auto
termination
  by (relation "measure length") auto

declare groupThousands.simps [simp del]

fun grouped_decimal :: "jsinteger \<Rightarrow> string" where
  "grouped_decimal (Integer n) =
     (if n < 0 then ''-'' @ groupThousands (digits (nat (- n)))
      else groupThousands (digits (nat n)))"
| "grouped_decimal PlusInfinity = [CHR 0xE2, CHR 0x88, CHR 0x9E]"
| "grouped_decimal MinusInfinity = [CHR ''-'', CHR 0xE2, CHR 0x88, CHR 0x9E]"

text \<open>Example inputs: statistics to render, and README texts with one span, with no end
  marker, with the end marker before the start marker, and with two spans.\<close>

definition example_stats :: stats where
  "example_stats = \<lparr>total = Integer 1234, longestStreak = 12, currentStreak = 1\<rparr>"

definition patched_readme :: string where
  "patched_readme = ''# Hi '' @ START_MARKER @ ''old'' @ END_MARKER @ '' bye''"

definition missing_end_readme :: string where
  "missing_end_readme = ''intro '' @ START_MARKER @ '' stats''"

definition reversed_readme :: string where
  "reversed_readme = END_MARKER @ ''x'' @ START_MARKER"

definition two_span_readme :: string where
  "two_span_readme =
     ''a'' @ START_MARKER @ ''one'' @ END_MARKER @ ''b'' @ START_MARKER @ ''two'' @ END_MARKER @ ''c''"

section \<open>Properties of the loops\<close>

lemma currentLoop_unfold:
  "currentLoop (xs @ [d]) (int (length xs)) c =
     (if count d > 0 then currentLoop (xs @ [d]) (int (length xs) - 1) (c + 1) else Inr c)"
  by (subst currentLoop.simps) simp

lemma currentLoop_below:
  "i < int (length xs) \<Longrightarrow> currentLoop (xs @ ys) i c = currentLoop xs i c"
proof (induction xs i c rule: currentLoop.induct)
  case (1 days i c)
  show ?case
  proof (cases "i \<ge> 0")
    case True
    with "1.prems" have lt: "nat i < length days" by simp
    show ?thesis
    proof (cases "count (days ! nat i) > 0")
      case True
      have "currentLoop (days @ ys) (i - 1) (c + 1) = currentLoop days (i - 1) (c + 1)"
        using "1.IH" [OF \<open>i \<ge> 0\<close> lt True] "1.prems" by simp
      then show ?thesis
        using True \<open>i \<ge> 0\<close> lt
        by (subst currentLoop.simps, subst (2) currentLoop.simps) (simp add: nth_append)
    next
      case False
      then show ?thesis
        using \<open>i \<ge> 0\<close> lt
        by (subst currentLoop.simps, subst (2) currentLoop.simps) (simp add: nth_append)
    qed
  next
    case False
    then show ?thesis
      by (subst currentLoop.simps, subst (2) currentLoop.simps) simp
  qed
qed

lemma currentLoop_eq:
  "currentLoop days (int (length days) - 1) c = Inr (c + trailing_positive days)"
proof (induction days arbitrary: c rule: rev_induct)
  case Nil
  show ?case by (subst currentLoop.simps) (simp add: trailing_positive_def)
next
  case (snoc d xs)
  show ?case
  proof (cases "count d > 0")
    case True
    have "currentLoop (xs @ [d]) (int (length xs) - 1) (c + 1) =
          currentLoop xs (int (length xs) - 1) (c + 1)"
      by (rule currentLoop_below) simp
    with True snoc.IH [of "c + 1"] show ?thesis
      by (simp add: currentLoop_unfold trailing_positive_def positive_def)
  next
    case False
    then show ?thesis
      by (simp add: currentLoop_unfold trailing_positive_def positive_def)
  qed
qed


lemma positive_suffix_lengths:
  "{length run | run. suffix run zs \<and> (\<forall>d \<in> set run. count d > 0)} = {..trailing_positive zs}"
proof (intro equalityI subsetI)
  fix n assume "n \<in> {length run | run. suffix run zs \<and> (\<forall>d \<in> set run. count d > 0)}"
  then obtain run where r: "n = length run" "suffix run zs" "\<forall>d \<in> set run. count d > 0" by blast
  from r(2) obtain pre where zs: "zs = pre @ run" by (auto simp: suffix_def)
  have "takeWhile positive (rev run @ rev pre) = rev run @ takeWhile positive (rev pre)"
    by (rule takeWhile_append2) (use r(3) in \<open>simp add: positive_def\<close>)
  then have "takeWhile positive (rev zs) = rev run @ takeWhile positive (rev pre)"
    by (simp only: zs rev_append)
  then show "n \<in> {..trailing_positive zs}" by (simp add: trailing_positive_def r(1))
next
  fix n assume "n \<in> {..trailing_positive zs}"
  then have n: "n \<le> length (takeWhile positive (rev zs))" by (simp add: trailing_positive_def)
  let ?run = "rev (take n (takeWhile positive (rev zs)))"
  have "prefix (take n (takeWhile positive (rev zs))) (rev zs)"
    by (meson prefix_order.trans take_is_prefix takeWhile_is_prefix)
  then have "suffix ?run zs" by (simp add: suffix_to_prefix)
  moreover have "\<forall>d \<in> set ?run. count d > 0"
    by (metis in_set_takeD positive_def set_rev set_takeWhileD)
  moreover have "length ?run = n" using n by simp
  ultimately have "\<exists>run. n = length run \<and> suffix run zs \<and> (\<forall>d \<in> set run. count d > 0)"
    by (intro exI [of _ ?run]) simp
  then show "n \<in> {length run | run. suffix run zs \<and> (\<forall>d \<in> set run. count d > 0)}"
    by simp
qed

lemma positive_run_lengths_snoc:
  "positive_run_lengths (xs @ [d]) = positive_run_lengths xs \<union> {..trailing_positive (xs @ [d])}"
  unfolding positive_suffix_lengths [symmetric] positive_run_lengths_def
  by (auto simp: sublist_snoc)

lemma positive_run_lengths_finite: "finite (positive_run_lengths xs)"
proof (rule finite_subset)
  show "positive_run_lengths xs \<subseteq> {..length xs}"
    by (auto simp: positive_run_lengths_def dest: sublist_length_le)
qed simp

lemma positive_run_lengths_zero: "0 \<in> positive_run_lengths xs"
  unfolding positive_run_lengths_def by (rule CollectI, rule exI [of _ "[]"]) simp

lemma trailing_positive_snoc:
  "trailing_positive (xs @ [d]) = (if count d > 0 then trailing_positive xs + 1 else 0)"
  by (simp add: trailing_positive_def positive_def)

lemma Max_positive_run_lengths_snoc:
  "Max (positive_run_lengths (xs @ [d])) =
     (if count d > 0 then max (Max (positive_run_lengths xs)) (trailing_positive xs + 1)
      else Max (positive_run_lengths xs))"
proof -
  have ne: "positive_run_lengths xs \<noteq> {}" using positive_run_lengths_zero by blast
  have "Max (positive_run_lengths xs \<union> {..trailing_positive (xs @ [d])}) =
        max (Max (positive_run_lengths xs)) (Max {..trailing_positive (xs @ [d])})"
    by (rule Max_Un) (simp_all add: positive_run_lengths_finite ne)
  moreover have "Max {..n} = n" for n :: nat
    by (rule Max_eqI) auto
  ultimately show ?thesis
    by (simp add: positive_run_lengths_snoc trailing_positive_snoc)
qed

lemma statsLoop_invariant:
  "statsLoop ys tot (Max (positive_run_lengths pre)) (trailing_positive pre) =
     (foldl jsAdd tot (map count ys), Max (positive_run_lengths (pre @ ys)),
      trailing_positive (pre @ ys))"
proof (induction ys arbitrary: pre tot)
  case Nil
  show ?case by simp
next
  case (Cons d ys)
  have step: "statsLoop (d # ys) tot (Max (positive_run_lengths pre)) (trailing_positive pre) =
      statsLoop ys (jsAdd tot (count d)) (Max (positive_run_lengths (pre @ [d])))
        (trailing_positive (pre @ [d]))"
    by (simp add: Max_positive_run_lengths_snoc trailing_positive_snoc max_def)
  show ?case
    unfolding step Cons.IH by simp
qed

lemma trailing_positive_is_run: "trailing_positive days \<in> positive_run_lengths days"
proof -
  have "trailing_positive days \<in>
      {length run | run. suffix run days \<and> (\<forall>d \<in> set run. count d > 0)}"
    unfolding positive_suffix_lengths by simp
  then show ?thesis
    unfolding positive_run_lengths_def by blast
qed

section \<open>Rounded sums\<close>

lemma ulp_small: "n < 2 ^ 53 \<Longrightarrow> ulp n = 1"
  by (subst ulp.simps) simp

lemma roundNat_exact: "n \<le> 2 ^ 53 \<Longrightarrow> roundNat n = n"
proof (cases "n < 2 ^ 53")
  case True
  then show ?thesis by (simp add: roundNat_def ulp_small)
next
  case False
  assume "n \<le> 2 ^ 53"
  with False have n: "n = 2 ^ 53" by simp
  have "ulp (2 ^ 53) = 2 * ulp (2 ^ 52)"
    by (subst ulp.simps) simp
  then have "ulp n = 2"
    by (simp add: n ulp_small)
  then show ?thesis
    by (simp add: roundNat_def n)
qed

lemma roundDouble_exact: "\<bar>x\<bar> \<le> 2 ^ 53 \<Longrightarrow> roundDouble x = Integer x"
proof -
  assume x: "\<bar>x\<bar> \<le> 2 ^ 53"
  then have "nat \<bar>x\<bar> \<le> 2 ^ 53"
    by (simp add: nat_le_iff)
  then have r: "roundNat (nat \<bar>x\<bar>) = nat \<bar>x\<bar>"
    by (rule roundNat_exact)
  have "(2::nat) ^ 53 < 2 ^ 1024"
    by (rule power_strict_increasing) simp_all
  with \<open>nat \<bar>x\<bar> \<le> 2 ^ 53\<close> have "\<not> 2 ^ 1024 \<le> nat \<bar>x\<bar>"
    by simp
  then show ?thesis
    by (simp add: roundDouble_def r Let_def)
qed

lemma foldl_jsAdd_exact:
  "\<bar>t\<bar> + sum_list (map abs cs) \<le> 2 ^ 53 \<Longrightarrow>
   foldl jsAdd (Integer t) cs = Integer (t + sum_list cs)"
proof (induction cs arbitrary: t)
  case Nil
  show ?case by simp
next
  case (Cons c cs)
  have nonneg: "0 \<le> sum_list (map abs cs)"
    by (rule sum_list_nonneg) auto
  have "\<bar>t + c\<bar> \<le> \<bar>t\<bar> + \<bar>c\<bar>"
    by (rule abs_triangle_ineq)
  with Cons.prems nonneg have small: "\<bar>t + c\<bar> \<le> 2 ^ 53"
    and rest: "\<bar>t + c\<bar> + sum_list (map abs cs) \<le> 2 ^ 53"
    by simp_all
  show ?case
    using Cons.IH [OF rest] by (simp add: roundDouble_exact [OF small] add.assoc)
qed

text \<open>A double stays what it is when rounded again, and when 0 is added to it.\<close>

lemma ulp_large: "\<not> n < 2 ^ 53 \<Longrightarrow> ulp n = 2 * ulp (n div 2)"
  by (subst ulp.simps) simp

lemma ulp_multiple:
  "2 ^ 52 \<le> q \<Longrightarrow> q < 2 ^ 53 \<Longrightarrow> ulp (q * 2 ^ k) = 2 ^ k"
proof (induction k)
  case 0
  then show ?case by (simp add: ulp_small)
next
  case (Suc k)
  have "(2::nat) ^ 53 = 2 ^ 52 * 2" by simp
  also have "\<dots> \<le> q * 2 ^ Suc k"
    using Suc.prems(1) by (intro mult_le_mono) simp_all
  finally have "\<not> q * 2 ^ Suc k < 2 ^ 53" by simp
  then have "ulp (q * 2 ^ Suc k) = 2 * ulp (q * 2 ^ Suc k div 2)"
    by (rule ulp_large)
  also have "q * 2 ^ Suc k div 2 = q * 2 ^ k" by simp
  finally show ?case using Suc by simp
qed

lemma roundNat_multiple:
  assumes "2 ^ 52 \<le> q" "q < 2 ^ 53"
  shows "roundNat (q * 2 ^ k) = q * 2 ^ k"
  by (simp add: roundNat_def ulp_multiple [OF assms])

lemma ulp_shape:
  "\<not> n < 2 ^ 53 \<Longrightarrow> \<exists>k. ulp n = 2 ^ k \<and> 2 ^ 52 \<le> n div 2 ^ k \<and> n div 2 ^ k < 2 ^ 53"
proof (induction n rule: ulp.induct)
  case (1 n)
  show ?case
  proof (cases "n div 2 < 2 ^ 53")
    case True
    have "ulp n = 2 ^ 1"
      using "1.prems" True by (simp add: ulp_large ulp_small)
    moreover have "2 ^ 52 \<le> n div 2 ^ 1"
      using "1.prems" by simp
    moreover have "n div 2 ^ 1 < 2 ^ 53"
      using True by simp
    ultimately show ?thesis by blast
  next
    case False
    from "1.IH" [OF "1.prems" False] obtain k where
      k: "ulp (n div 2) = 2 ^ k" "2 ^ 52 \<le> n div 2 div 2 ^ k" "n div 2 div 2 ^ k < 2 ^ 53"
      by blast
    have "n div 2 ^ Suc k = n div 2 div 2 ^ k"
      by (simp add: div_mult2_eq)
    with k "1.prems" have "ulp n = 2 ^ Suc k \<and> 2 ^ 52 \<le> n div 2 ^ Suc k \<and> n div 2 ^ Suc k < 2 ^ 53"
      by (simp add: ulp_large)
    then show ?thesis by blast
  qed
qed

lemma roundNat_idem: "roundNat (roundNat n) = roundNat n"
proof (cases "n < 2 ^ 53")
  case True
  then show ?thesis by (simp add: roundNat_exact)
next
  case False
  from ulp_shape [OF False] obtain k where
    k: "ulp n = 2 ^ k" "2 ^ 52 \<le> n div 2 ^ k" "n div 2 ^ k < 2 ^ 53"
    by blast
  let ?q = "n div 2 ^ k"
  have "roundNat n = ?q * 2 ^ k \<or> roundNat n = (?q + 1) * 2 ^ k"
    by (simp add: roundNat_def k(1) Let_def)
  then show ?thesis
  proof
    assume "roundNat n = ?q * 2 ^ k"
    then show ?thesis using roundNat_multiple [OF k(2,3)] by simp
  next
    assume r: "roundNat n = (?q + 1) * 2 ^ k"
    show ?thesis
    proof (cases "?q + 1 < 2 ^ 53")
      case True
      have "2 ^ 52 \<le> ?q + 1" using k(2) by simp
      from roundNat_multiple [OF this True] r show ?thesis by simp
    next
      case False
      with k(3) have "?q + 1 = 2 ^ 53" by simp
      then have "roundNat n = 2 ^ 52 * 2 ^ Suc k" using r by simp
      moreover have "roundNat (2 ^ 52 * 2 ^ Suc k) = 2 ^ 52 * 2 ^ Suc k"
        by (rule roundNat_multiple) simp_all
      ultimately show ?thesis by simp
    qed
  qed
qed

lemma roundDouble_idem:
  assumes "roundDouble x = Integer y"
  shows "roundDouble y = Integer y"
proof -
  let ?m = "roundNat (nat \<bar>x\<bar>)"
  from assms have fin: "\<not> 2 ^ 1024 \<le> ?m" and y: "y = (if x < 0 then - int ?m else int ?m)"
    by (auto simp: roundDouble_def Let_def split: if_splits)
  have "nat \<bar>y\<bar> = ?m" using y by simp
  then have m: "roundNat (nat \<bar>y\<bar>) = ?m" by (simp add: roundNat_idem)
  have "(if y < 0 then - int ?m else int ?m) = y"
    using y by auto
  then show ?thesis
    unfolding roundDouble_def m Let_def using fin by simp
qed

lemma jsAdd_zero: "jsAdd (jsAdd tot c) 0 = jsAdd tot c"
proof (cases tot)
  case (Integer t)
  show ?thesis
  proof (cases "roundDouble (t + c)")
    case (Integer y)
    with roundDouble_idem [OF Integer] \<open>tot = Integer t\<close> show ?thesis by simp
  qed (simp_all add: \<open>tot = Integer t\<close>)
qed simp_all

section \<open>What computeStats returns\<close>

lemma computeStats_returns:
  "computeStats days =
     Inr \<lparr>total = foldl jsAdd (Integer 0) (map count days),
          longestStreak = Max (positive_run_lengths days),
          currentStreak = trailing_positive days\<rparr>"
proof -
  have "Max (positive_run_lengths []) = 0"
    by (rule Max_eqI) (auto simp: positive_run_lengths_def)
  moreover have "trailing_positive [] = 0"
    by (simp add: trailing_positive_def)
  ultimately have "statsLoop days (Integer 0) 0 0 =
      (foldl jsAdd (Integer 0) (map count days), Max (positive_run_lengths days),
       trailing_positive days)"
    using statsLoop_invariant [of days "Integer 0" "[]"] by simp
  then show ?thesis
    using currentLoop_eq [of days 0] by (simp add: computeStats_def)
qed

lemma scenario_A_stats:
  "computeStats scenario_A =
     Inr \<lparr>total = Integer 10, longestStreak = 2, currentStreak = 2\<rparr>"
  by (simp add: computeStats_def scenario_A_def currentLoop.simps roundDouble_exact)

text \<open>
  C1.  For every day sequence, \<^verbatim>\<open>computeStats\<close> returns \<^verbatim>\<open>longestStreak\<close> equal to the
  length of the longest run of consecutive entries (in sequence order) that all have
  \<^verbatim>\<open>count > 0\<close>; an entry with \<^verbatim>\<open>count == 0\<close> resets the running streak to 0
  before the scan continues (and adds its 0 to the total, which leaves the total, 0 or
  the result of an addition, as it is).
\<close>

theorem computeStats_longestStreak:
  "(\<exists>st. computeStats days = Inr st \<and> longestStreak st = Max (positive_run_lengths days)) \<and>
   (\<forall>d rest tot longest rolling.
      count d = 0 \<longrightarrow>
      statsLoop (d # rest) tot longest rolling = statsLoop rest (jsAdd tot 0) longest 0) \<and>
   (\<forall>tot c. jsAdd (jsAdd tot c) 0 = jsAdd tot c) \<and>
   jsAdd (Integer 0) 0 = Integer 0"
  by (simp add: computeStats_returns jsAdd_zero roundDouble_exact)

theorem computeStats_longestStreak_witness:
  "Max (positive_run_lengths scenario_A) = 2 \<and>
   statsLoop (\<lparr>date = ''d2'', count = 0\<rparr> # []) (Integer 5) 1 1 = (Integer 5, 1, 0)"
  using computeStats_longestStreak [of scenario_A] scenario_A_stats
  by (simp add: roundDouble_exact)

text \<open>
  C2.  For every day sequence, \<^verbatim>\<open>computeStats\<close> returns \<^verbatim>\<open>currentStreak\<close> equal to the
  number of trailing entries with \<^verbatim>\<open>count > 0\<close>: scanning backward from the end, the
  first \<open>n\<close> entries are positive, and the scan stops at the first entry that is not, or
  when the sequence is exhausted.
\<close>

theorem computeStats_currentStreak:
  "\<exists>st. computeStats days = Inr st \<and>
     currentStreak st = trailing_positive days \<and>
     currentStreak st \<le> length days \<and>
     (\<forall>k < currentStreak st. count (rev days ! k) > 0) \<and>
     (currentStreak st < length days \<longrightarrow> count (rev days ! currentStreak st) \<le> 0)"
proof -
  let ?n = "trailing_positive days"
  have n: "?n = length (takeWhile positive (rev days))"
    by (simp add: trailing_positive_def)
  have le: "?n \<le> length days"
    unfolding n using length_takeWhile_le [of positive "rev days"] by simp
  have pos: "count (rev days ! k) > 0" if "k < ?n" for k
  proof -
    have "positive (takeWhile positive (rev days) ! k)"
      using that unfolding n by (metis nth_mem set_takeWhileD)
    then show ?thesis
      using that unfolding n by (simp add: takeWhile_nth positive_def)
  qed
  have stop: "count (rev days ! ?n) \<le> 0" if "?n < length days"
  proof -
    have "\<not> positive (rev days ! ?n)"
      unfolding n using that n by (intro nth_length_takeWhile) simp
    then show ?thesis by (simp add: positive_def)
  qed
  show ?thesis
    using le pos stop by (simp add: computeStats_returns)
qed

theorem computeStats_currentStreak_witness:
  "computeStats scenario_A =
     Inr \<lparr>total = Integer 10, longestStreak = 2, currentStreak = 2\<rparr> \<and>
   trailing_positive scenario_A = 2 \<and>
   count (rev scenario_A ! 2) \<le> 0"
proof -
  have len: "length scenario_A = 4"
    by (simp add: scenario_A_def)
  show ?thesis
    using computeStats_currentStreak [of scenario_A] scenario_A_stats len by auto
qed

text \<open>
  C3.  The specification says that for every day sequence \<^verbatim>\<open>total\<close> equals the sum of
  the counts, whatever the order.  It does not: \<^verbatim>\<open>total += day.count\<close> rounds to a
  double.  For the counts \<open>2^53, 1, 1\<close> the code returns \<open>2^53\<close>, which is not the sum
  \<open>2^53 + 2\<close>; for the same entries in the order \<open>1, 1, 2^53\<close> it returns \<open>2^53 + 2\<close>.
\<close>

theorem computeStats_total_counterexample:
  "computeStats big_first =
     Inr \<lparr>total = Integer 9007199254740992, longestStreak = 3, currentStreak = 3\<rparr> \<and>
   sum_list (map count big_first) = 9007199254740994 \<and>
   mset big_last = mset big_first \<and>
   computeStats big_last =
     Inr \<lparr>total = Integer 9007199254740994, longestStreak = 3, currentStreak = 3\<rparr>"
  by (simp add: computeStats_def big_first_def big_last_def currentLoop.simps
      roundDouble_def roundNat_def ulp.simps Let_def)

text \<open>
  C3, as amended.  For every day sequence of integer counts whose magnitudes add up to
  at most \<open>2^53\<close>, \<^verbatim>\<open>computeStats\<close> returns \<^verbatim>\<open>total\<close> equal to the sum of the \<^verbatim>\<open>count\<close>
  values of all entries, and the value is the same for every permutation of the
  sequence.
\<close>

theorem computeStats_total_exact:
  assumes "sum_list (map (\<lambda>d. \<bar>count d\<bar>) days) \<le> 2 ^ 53"
  shows "(\<exists>st. computeStats days = Inr st \<and> total st = Integer (sum_list (map count days))) \<and>
   (mset days' = mset days \<longrightarrow>
      map_sum id total (computeStats days') = map_sum id total (computeStats days))"
proof -
  have exact: "foldl jsAdd (Integer 0) (map count ds) = Integer (sum_list (map count ds))"
    if "sum_list (map (\<lambda>d. \<bar>count d\<bar>) ds) \<le> 2 ^ 53" for ds :: "int day list"
  proof -
    have "sum_list (map abs (map count ds)) = sum_list (map (\<lambda>d. \<bar>count d\<bar>) ds)"
      by (simp add: comp_def)
    with that have "\<bar>0\<bar> + sum_list (map abs (map count ds)) \<le> 2 ^ 53"
      by simp
    from foldl_jsAdd_exact [OF this] show ?thesis by simp
  qed
  have perm: "sum_list (map f days') = sum_list (map f days)"
    if "mset days' = mset days" for f :: "int day \<Rightarrow> int"
  proof -
    have "mset (map f days') = mset (map f days)"
      using that by (metis mset_map)
    then show ?thesis by (metis sum_mset_sum_list)
  qed
  have "map_sum id total (computeStats days') = map_sum id total (computeStats days)"
    if m: "mset days' = mset days"
  proof -
    have "sum_list (map (\<lambda>d. \<bar>count d\<bar>) days') \<le> 2 ^ 53"
      using assms perm [OF m, of "\<lambda>d. \<bar>count d\<bar>"] by simp
    from exact [OF this] exact [OF assms] perm [OF m, of count] show ?thesis
      by (simp add: computeStats_returns)
  qed
  with exact [OF assms] show ?thesis
    by (simp add: computeStats_returns)
qed

theorem computeStats_total_exact_witness:
  "sum_list (map (\<lambda>d. \<bar>count d\<bar>) scenario_A) \<le> 2 ^ 53 \<and>
   mset (rev scenario_A) = mset scenario_A \<and>
   map_sum id total (computeStats (rev scenario_A)) = Inr (Integer 10) \<and>
   sum_list (map count scenario_A) = 10"
proof -
  have h: "sum_list (map (\<lambda>d. \<bar>count d\<bar>) scenario_A) \<le> 2 ^ 53"
    by (simp add: scenario_A_def)
  from computeStats_total_exact [OF h, of "rev scenario_A"] scenario_A_stats h
  show ?thesis by auto
qed

text \<open>
  C4.  The specification says that \<^verbatim>\<open>longestStreak >= currentStreak\<close> is not a general
  law, that is, that some day sequence makes \<^verbatim>\<open>computeStats\<close> return
  \<^verbatim>\<open>longestStreak < currentStreak\<close>.  There is no such day sequence.
\<close>

theorem longestStreak_below_currentStreak_counterexample:
  "\<not> (\<exists>days st. computeStats days = Inr st \<and> longestStreak st < currentStreak st)"
proof
  assume "\<exists>days st. computeStats days = Inr st \<and> longestStreak st < currentStreak st"
  then obtain days where "Max (positive_run_lengths days) < trailing_positive days"
    by (auto simp: computeStats_returns)
  moreover have "trailing_positive days \<le> Max (positive_run_lengths days)"
    by (rule Max_ge) (rule positive_run_lengths_finite, rule trailing_positive_is_run)
  ultimately show False by simp
qed

text \<open>
  C4, as amended.  For every day sequence, \<^verbatim>\<open>computeStats\<close> returns
  \<^verbatim>\<open>currentStreak \<le> longestStreak\<close>: the trailing run is one of the runs.
\<close>

theorem currentStreak_le_longestStreak:
  "\<exists>st. computeStats days = Inr st \<and> currentStreak st \<le> longestStreak st"
proof -
  have "trailing_positive days \<le> Max (positive_run_lengths days)"
    by (rule Max_ge) (rule positive_run_lengths_finite, rule trailing_positive_is_run)
  then show ?thesis by (simp add: computeStats_returns)
qed

text \<open>
  C8.  For the empty day sequence, \<^verbatim>\<open>computeStats\<close> returns \<^verbatim>\<open>total = 0\<close>,
  \<^verbatim>\<open>longestStreak = 0\<close> and \<^verbatim>\<open>currentStreak = 0\<close>.
\<close>

theorem computeStats_empty:
  "computeStats [] = Inr \<lparr>total = Integer 0, longestStreak = 0, currentStreak = 0\<rparr>"
  by (simp add: computeStats_def currentLoop.simps)

section \<open>The calendar aggregator\<close>

lemma pushCalendars_append:
  "pushCalendars s2n days cals = days @ concat (map (flattenWeeks s2n) cals)"
  by (induction cals arbitrary: days) simp_all

lemma pushCalendars_map:
  "pushCalendars s2n [] cals = map (toDay s2n) (api_days cals)"
proof -
  have "flattenWeeks s2n cal = map (toDay s2n) (concat (map contributionDays (weeks cal)))"
    for cal
    by (simp add: flattenWeeks_def map_concat comp_def)
  then have "flattenWeeks s2n =
      (\<lambda>cal. map (toDay s2n) (concat (map contributionDays (weeks cal))))"
    by (intro ext)
  then show ?thesis
    by (simp add: pushCalendars_append api_days_def map_concat comp_def)
qed

lemma toDay_coerced: "coerced s2n raw (toDay s2n raw)"
  by (cases "Number s2n (contributionCount raw)")
     (auto simp: coerced_def toDay_def orZero_def ToBoolean_def Let_def)

text \<open>
  C5.  The specification says that every entry of the aggregated sequence has a
  non-negative integer count.  It has not: a response whose \<^verbatim>\<open>contributionCount\<close> is
  \<open>-1\<close> yields an entry with count \<open>-1\<close>, whatever the conversion of strings is.
\<close>

theorem flatten_counts_counterexample:
  "\<forall>StringToNumber.
     \<not> counts_nonneg_integers (pushCalendars StringToNumber [] [negative_calendar])"
  by (simp add: counts_nonneg_integers_def negative_calendar_def flattenWeeks_def toDay_def
      orZero_def ToBoolean_def)

text \<open>
  C5, as amended.  For every sequence of per-year calendar responses, the aggregator
  flattens the weeks into one \<^verbatim>\<open>{date, count}\<close> pair per day, in order, with
  \<^verbatim>\<open>count = Number(contributionCount) || 0\<close>: a missing count, or one that converts to
  \<open>NaN\<close> or zero, gives 0; every other number is kept as it is; the count is never
  \<open>NaN\<close>, and it is a non-negative integer exactly when the converted
  \<^verbatim>\<open>contributionCount\<close> is one or is \<open>NaN\<close>.
\<close>

theorem flatten_counts:
  "list_all2 (coerced StringToNumber) (api_days cals) (pushCalendars StringToNumber [] cals)"
  unfolding pushCalendars_map list_all2_map2
  by (rule list_all2_refl) (rule toDay_coerced)

theorem flatten_counts_witness:
  "pushCalendars (\<lambda>s. NaN) [] [mixed_calendar] =
     [\<lparr>date = ''2024-01-01'', count = Finite 4\<rparr>,
      \<lparr>date = ''2024-01-02'', count = Finite 0\<rparr>,
      \<lparr>date = ''2024-01-03'', count = Finite (- 1)\<rparr>] \<and>
   list_all2 (coerced (\<lambda>s. NaN)) (api_days [mixed_calendar])
     (pushCalendars (\<lambda>s. NaN) [] [mixed_calendar])"
  using flatten_counts [of "\<lambda>s. NaN" "[mixed_calendar]"]
  by (simp add: mixed_calendar_def flattenWeeks_def toDay_def orZero_def ToBoolean_def)

section \<open>The regular expression\<close>

lemma string_includes_iff: "string_includes s sub \<longleftrightarrow> sublist sub s"
  by (induction s) (simp_all add: sublist_Cons_right)

lemma matchLazyEnd_sound:
  "matchLazyEnd s = Some (b, c) \<Longrightarrow> s = b @ END_MARKER @ c"
proof (induction s arbitrary: b)
  case Nil
  then show ?case by (simp split: if_splits)
next
  case (Cons x xs)
  show ?case
  proof (cases "prefix END_MARKER (x # xs)")
    case True
    then have "x # xs = END_MARKER @ drop (length END_MARKER) (x # xs)"
      by (metis append_eq_conv_conj prefix_def)
    with True Cons.prems show ?thesis by simp
  next
    case False
    with Cons.prems obtain b' where "matchLazyEnd xs = Some (b', c)" "b = x # b'"
      by (auto split: option.splits)
    with Cons.IH [of b'] show ?thesis by simp
  qed
qed

lemma matchLazyEnd_complete:
  "s = b2 @ END_MARKER @ c2 \<Longrightarrow>
   \<exists>b c mid. matchLazyEnd s = Some (b, c) \<and> b2 @ END_MARKER = b @ END_MARKER @ mid \<and> c = mid @ c2"
proof (induction s arbitrary: b2)
  case Nil
  then show ?case by simp
next
  case (Cons x xs)
  show ?case
  proof (cases "prefix END_MARKER (x # xs)")
    case True
    let ?c = "drop (length END_MARKER) (x # xs)"
    let ?mid = "drop (length END_MARKER) (b2 @ END_MARKER)"
    have "prefix (b2 @ END_MARKER) (x # xs)"
      unfolding Cons.prems by (metis append.assoc prefixI)
    with True have "prefix END_MARKER (b2 @ END_MARKER)"
      by (rule prefix_length_prefix) simp
    then have 1: "b2 @ END_MARKER = END_MARKER @ ?mid"
      by (metis append_eq_conv_conj prefix_def)
    have 2: "?c = ?mid @ c2"
      using Cons.prems by simp
    show ?thesis using True 1 2 by simp
  next
    case False
    then have "b2 \<noteq> []" using Cons.prems by auto
    then obtain b2' where b2: "b2 = x # b2'" "xs = b2' @ END_MARKER @ c2"
      using Cons.prems by (cases b2) auto
    from Cons.IH [OF b2(2)] obtain b c mid where
      "matchLazyEnd xs = Some (b, c)" "b2' @ END_MARKER = b @ END_MARKER @ mid" "c = mid @ c2"
      by blast
    then show ?thesis using False b2 by simp
  qed
qed

lemma matchPattern_sound:
  assumes "matchPattern s = Some (m, c)"
  shows "\<exists>b. m = START_MARKER @ b @ END_MARKER \<and> s = m @ c"
proof -
  from assms have p: "prefix START_MARKER s"
    by (simp add: matchPattern_def split: if_splits)
  with assms obtain b where b: "matchLazyEnd (drop (length START_MARKER) s) = Some (b, c)"
    "m = START_MARKER @ b @ END_MARKER"
    by (auto simp: matchPattern_def split: option.splits)
  from p have "s = START_MARKER @ drop (length START_MARKER) s"
    by (metis append_eq_conv_conj prefix_def)
  with matchLazyEnd_sound [OF b(1)] b(2) show ?thesis by auto
qed

lemma matchPattern_complete:
  assumes "s = START_MARKER @ b2 @ END_MARKER @ c2"
  shows "\<exists>b c mid. matchPattern s = Some (START_MARKER @ b @ END_MARKER, c) \<and>
           b2 @ END_MARKER = b @ END_MARKER @ mid \<and> c = mid @ c2"
proof -
  have "drop (length START_MARKER) s = b2 @ END_MARKER @ c2"
    using assms by simp
  from matchLazyEnd_complete [OF this] obtain b c mid where
    "matchLazyEnd (drop (length START_MARKER) s) = Some (b, c)"
    "b2 @ END_MARKER = b @ END_MARKER @ mid" "c = mid @ c2"
    by blast
  then show ?thesis using assms by (simp add: matchPattern_def)
qed

lemma matchPattern_None:
  assumes "matchPattern s = None" and "s = a2 @ START_MARKER @ b2 @ END_MARKER @ c2"
  shows "a2 \<noteq> []"
proof
  assume "a2 = []"
  with assms(2) matchPattern_complete [of s b2 c2] assms(1) show False by auto
qed

lemma regexExec_sound:
  "regexExec s = Some (a, m, c) \<Longrightarrow>
   \<exists>b. m = START_MARKER @ b @ END_MARKER \<and> s = a @ m @ c"
proof (induction s arbitrary: a)
  case Nil
  then show ?case
    using matchPattern_sound [of "[]" m c] by (auto split: option.splits)
next
  case (Cons x xs)
  show ?case
  proof (cases "matchPattern (x # xs)")
    case None
    with Cons.prems obtain a' where "regexExec xs = Some (a', m, c)" "a = x # a'"
      by (auto split: option.splits)
    with Cons.IH [of a'] show ?thesis by auto
  next
    case (Some r)
    with Cons.prems have "matchPattern (x # xs) = Some (m, c)" "a = []"
      by (auto split: prod.splits)
    with matchPattern_sound [of "x # xs" m c] show ?thesis by auto
  qed
qed

lemma regexExec_complete:
  "s = a2 @ START_MARKER @ b2 @ END_MARKER @ c2 \<Longrightarrow>
   \<exists>a b c x mid. regexExec s = Some (a, START_MARKER @ b @ END_MARKER, c) \<and>
      a2 = a @ x \<and> x @ START_MARKER @ b2 @ END_MARKER = START_MARKER @ b @ END_MARKER @ mid \<and>
      c = mid @ c2"
proof (induction s arbitrary: a2)
  case Nil
  then have "a2 = []" "[] = START_MARKER @ b2 @ END_MARKER @ c2" by simp_all
  from matchPattern_complete [OF this(2)] this(1) show ?case
    by (auto simp del: append_is_Nil_conv Nil_is_append_conv)
next
  case (Cons y ys)
  show ?case
  proof (cases "matchPattern (y # ys)")
    case None
    from matchPattern_None [OF None Cons.prems] obtain a2' where
      a2: "a2 = y # a2'" "ys = a2' @ START_MARKER @ b2 @ END_MARKER @ c2"
      using Cons.prems by (cases a2) auto
    from Cons.IH [OF a2(2)] obtain a b c x mid where
      "regexExec ys = Some (a, START_MARKER @ b @ END_MARKER, c)" "a2' = a @ x"
      "x @ START_MARKER @ b2 @ END_MARKER = START_MARKER @ b @ END_MARKER @ mid" "c = mid @ c2"
      by blast
    then show ?thesis using None a2(1) by simp
  next
    case (Some r)
    then obtain m c where r: "matchPattern (y # ys) = Some (m, c)" by (cases r) auto
    from matchPattern_sound [OF r] obtain b where
      m: "m = START_MARKER @ b @ END_MARKER" "y # ys = m @ c" by blast
    let ?b3 = "drop (length START_MARKER) (a2 @ START_MARKER @ b2)"
    have "prefix START_MARKER (y # ys)"
      using m by simp
    moreover have "prefix (a2 @ START_MARKER @ b2) (y # ys)"
      unfolding Cons.prems by (metis append.assoc prefixI)
    ultimately have "prefix START_MARKER (a2 @ START_MARKER @ b2)"
      by (rule prefix_length_prefix) simp
    then have "a2 @ START_MARKER @ b2 = START_MARKER @ ?b3"
      by (metis append_eq_conv_conj prefix_def)
    then have "y # ys = START_MARKER @ ?b3 @ END_MARKER @ c2"
      using Cons.prems by (metis append.assoc)
    from matchPattern_complete [OF this] r m(1) obtain mid where
      mid: "?b3 @ END_MARKER = b @ END_MARKER @ mid" "c = mid @ c2"
      by auto
    have "a2 @ START_MARKER @ b2 @ END_MARKER = START_MARKER @ b @ END_MARKER @ mid"
      using m Cons.prems mid(2) by simp
    then show ?thesis using r m(1) mid(2) by simp
  qed
qed

lemma getSubstitution_plain:
  "CHR ''$'' \<notin> set template \<Longrightarrow> getSubstitution m p f template = template"
  by (induction m p f template rule: getSubstitution.induct) auto

section \<open>The file patcher\<close>

lemma encodeURIComponent_no_dollar: "CHR ''$'' \<notin> set (encodeURIComponent s)"
proof -
  have hex: "hexDigit n \<noteq> CHR ''$''" for n
  proof -
    have "hexDigit n \<in> set ''0123456789ABCDEF''"
      unfolding hexDigit_def by (rule nth_mem) simp
    then show ?thesis by auto
  qed
  have "CHR ''$'' \<notin> set (encodeChar c)" for c
    using hex [of "of_char c div 16"] hex [of "of_char c mod 16"]
    by (auto simp: encodeChar_def unreserved_def)
  then show ?thesis
    by (simp add: encodeURIComponent_def)
qed

lemma renderStats_no_dollar: "CHR ''$'' \<notin> set (renderStats toLocaleString st)"
  using encodeURIComponent_no_dollar
  by (simp add: renderStats_def Let_def START_MARKER_def END_MARKER_def dq_def nl_def)

lemma getSubstitution_renderStats:
  "getSubstitution m p f (renderStats toLocaleString st) = renderStats toLocaleString st"
  by (rule getSubstitution_plain) (rule renderStats_no_dollar)

lemma span_includes:
  assumes "content = a @ START_MARKER @ b @ END_MARKER @ c"
  shows "string_includes content START_MARKER" and "string_includes content END_MARKER"
proof -
  show "string_includes content START_MARKER"
    unfolding string_includes_iff assms by (rule sublist_appendI)
  have "content = (a @ START_MARKER @ b) @ END_MARKER @ c"
    using assms by simp
  then show "string_includes content END_MARKER"
    unfolding string_includes_iff by (metis sublist_appendI)
qed

lemma replace_span:
  assumes "content = a2 @ START_MARKER @ b2 @ END_MARKER @ c2"
  shows "\<exists>a b x mid.
           a2 = a @ x \<and>
           x @ START_MARKER @ b2 @ END_MARKER = START_MARKER @ b @ END_MARKER @ mid \<and>
           content = a @ START_MARKER @ b @ END_MARKER @ mid @ c2 \<and>
           regexExec content = Some (a, START_MARKER @ b @ END_MARKER, mid @ c2)"
proof -
  from regexExec_complete [OF assms] obtain a b c x mid where
    r: "regexExec content = Some (a, START_MARKER @ b @ END_MARKER, c)" "a2 = a @ x"
      "x @ START_MARKER @ b2 @ END_MARKER = START_MARKER @ b @ END_MARKER @ mid" "c = mid @ c2"
    by blast
  from regexExec_sound [OF r(1)] have "content = a @ START_MARKER @ b @ END_MARKER @ c"
    by simp
  with r show ?thesis by blast
qed

lemma injectStats_span:
  assumes "content = a2 @ START_MARKER @ b2 @ END_MARKER @ c2"
  shows "\<exists>a b x mid.
           a2 = a @ x \<and>
           x @ START_MARKER @ b2 @ END_MARKER = START_MARKER @ b @ END_MARKER @ mid \<and>
           content = a @ START_MARKER @ b @ END_MARKER @ mid @ c2 \<and>
           injectStats (renderStats toLocaleString st) \<lparr>readme = Some content, writes = ws\<rparr> =
             (Inr (), \<lparr>readme = Some (a @ renderStats toLocaleString st @ mid @ c2),
                       writes = ws @ [a @ renderStats toLocaleString st @ mid @ c2]\<rparr>)"
proof -
  from replace_span [OF assms] obtain a b x mid where
    r: "a2 = a @ x"
      "x @ START_MARKER @ b2 @ END_MARKER = START_MARKER @ b @ END_MARKER @ mid"
      "content = a @ START_MARKER @ b @ END_MARKER @ mid @ c2"
      "regexExec content = Some (a, START_MARKER @ b @ END_MARKER, mid @ c2)"
    by blast
  have "injectStats (renderStats toLocaleString st) \<lparr>readme = Some content, writes = ws\<rparr> =
      (Inr (), \<lparr>readme = Some (a @ renderStats toLocaleString st @ mid @ c2),
                writes = ws @ [a @ renderStats toLocaleString st @ mid @ c2]\<rparr>)"
    using span_includes [OF assms] r(4)
    by (simp add: injectStats_def replace_def writeFileSync_def getSubstitution_renderStats)
  with r show ?thesis by blast
qed

lemma first_span:
  assumes "content = a' @ START_MARKER @ b' @ END_MARKER @ c'"
  shows "\<exists>a b c.
           regexExec content = Some (a, START_MARKER @ b @ END_MARKER, c) \<and>
           content = a @ START_MARKER @ b @ END_MARKER @ c \<and>
           (\<forall>a2 b2 c2. content = a2 @ START_MARKER @ b2 @ END_MARKER @ c2 \<longrightarrow>
              length a \<le> length a2) \<and>
           (\<forall>b2 c2. content = a @ START_MARKER @ b2 @ END_MARKER @ c2 \<longrightarrow>
              length b \<le> length b2)"
proof -
  from replace_span [OF assms] obtain a b c where
    r: "regexExec content = Some (a, START_MARKER @ b @ END_MARKER, c)"
       "content = a @ START_MARKER @ b @ END_MARKER @ c"
    by auto
  have leftmost: "length a \<le> length a2"
    if "content = a2 @ START_MARKER @ b2 @ END_MARKER @ c2" for a2 b2 c2
  proof -
    from replace_span [OF that] r(1) obtain x where "a2 = a @ x" by auto
    then show ?thesis by simp
  qed
  have lazy: "length b \<le> length b2"
    if "content = a @ START_MARKER @ b2 @ END_MARKER @ c2" for b2 c2
  proof -
    from replace_span [OF that] r(1) obtain x mid where
      "a = a @ x" "x @ START_MARKER @ b2 @ END_MARKER = START_MARKER @ b @ END_MARKER @ mid"
      by auto
    then have "b2 @ END_MARKER = b @ END_MARKER @ mid" by simp
    then have "length (b2 @ END_MARKER) = length (b @ END_MARKER @ mid)" by (rule arg_cong)
    then show ?thesis by simp
  qed
  from r leftmost lazy show ?thesis by blast
qed

lemma injectStats_match:
  assumes "regexExec content = Some (a, START_MARKER @ b @ END_MARKER, c)"
  shows "injectStats (renderStats toLocaleString st) \<lparr>readme = Some content, writes = ws\<rparr> =
           (Inr (), \<lparr>readme = Some (a @ renderStats toLocaleString st @ c),
                     writes = ws @ [a @ renderStats toLocaleString st @ c]\<rparr>)"
proof -
  from regexExec_sound [OF assms] have "content = a @ START_MARKER @ b @ END_MARKER @ c"
    by simp
  from span_includes [OF this] assms show ?thesis
    by (simp add: injectStats_def replace_def writeFileSync_def getSubstitution_renderStats)
qed

text \<open>
  C6.  For every file content that contains the start sentinel followed by the end
  sentinel, with arbitrary text between them, patching replaces exactly the span from
  the start sentinel through the end sentinel with the rendered fragment: the span
  starts at the leftmost start sentinel that an end sentinel follows and ends with the
  first end sentinel after it (non-greedy), and every character before the start
  sentinel and after the end sentinel is unchanged in the text written.
\<close>

theorem injectStats_replaces_span:
  assumes "content = a' @ START_MARKER @ b' @ END_MARKER @ c'"
  shows "\<exists>a b c.
           content = a @ START_MARKER @ b @ END_MARKER @ c \<and>
           (\<forall>a2 b2 c2. content = a2 @ START_MARKER @ b2 @ END_MARKER @ c2 \<longrightarrow>
              length a \<le> length a2) \<and>
           (\<forall>b2 c2. content = a @ START_MARKER @ b2 @ END_MARKER @ c2 \<longrightarrow>
              length b \<le> length b2) \<and>
           injectStats (renderStats toLocaleString st) \<lparr>readme = Some content, writes = ws\<rparr> =
             (Inr (), \<lparr>readme = Some (a @ renderStats toLocaleString st @ c),
                       writes = ws @ [a @ renderStats toLocaleString st @ c]\<rparr>)"
proof -
  from first_span [OF assms] obtain a b c where
    r: "regexExec content = Some (a, START_MARKER @ b @ END_MARKER, c)"
       "content = a @ START_MARKER @ b @ END_MARKER @ c"
       "\<forall>a2 b2 c2. content = a2 @ START_MARKER @ b2 @ END_MARKER @ c2 \<longrightarrow> length a \<le> length a2"
       "\<forall>b2 c2. content = a @ START_MARKER @ b2 @ END_MARKER @ c2 \<longrightarrow> length b \<le> length b2"
    by blast
  from injectStats_match [OF r(1)] r(2,3,4) show ?thesis by blast
qed

lemma patched_readme_exec:
  "regexExec patched_readme = Some (''# Hi '', START_MARKER @ ''old'' @ END_MARKER, '' bye'')"
  by (simp add: patched_readme_def START_MARKER_def END_MARKER_def matchPattern_def)

theorem injectStats_replaces_span_witness:
  "patched_readme = ''# Hi '' @ START_MARKER @ ''old'' @ END_MARKER @ '' bye'' \<and>
   injectStats (renderStats grouped_decimal example_stats) \<lparr>readme = Some patched_readme, writes = []\<rparr> =
     (Inr (), \<lparr>readme = Some (''# Hi '' @ renderStats grouped_decimal example_stats @ '' bye''),
               writes = [''# Hi '' @ renderStats grouped_decimal example_stats @ '' bye'']\<rparr>)"
proof -
  have h: "patched_readme = ''# Hi '' @ START_MARKER @ ''old'' @ END_MARKER @ '' bye''"
    by (simp add: patched_readme_def)
  from injectStats_replaces_span [OF h, of grouped_decimal example_stats "[]"] obtain a b c where
    r: "patched_readme = a @ START_MARKER @ b @ END_MARKER @ c"
       "\<forall>a2 b2 c2. patched_readme = a2 @ START_MARKER @ b2 @ END_MARKER @ c2 \<longrightarrow>
          length a \<le> length a2"
       "\<forall>b2 c2. patched_readme = a @ START_MARKER @ b2 @ END_MARKER @ c2 \<longrightarrow>
          length b \<le> length b2"
       "injectStats (renderStats grouped_decimal example_stats) \<lparr>readme = Some patched_readme, writes = []\<rparr> =
          (Inr (), \<lparr>readme = Some (a @ renderStats grouped_decimal example_stats @ c),
                    writes = [] @ [a @ renderStats grouped_decimal example_stats @ c]\<rparr>)"
    by blast
  have "injectStats (renderStats grouped_decimal example_stats) \<lparr>readme = Some patched_readme, writes = []\<rparr> =
      (Inr (), \<lparr>readme = Some (''# Hi '' @ renderStats grouped_decimal example_stats @ '' bye''),
                writes = [''# Hi '' @ renderStats grouped_decimal example_stats @ '' bye'']\<rparr>)"
    using injectStats_match [OF patched_readme_exec, of grouped_decimal example_stats "[]"] by simp
  with h r show ?thesis by simp
qed

text \<open>
  C7.  For every file content in which the start sentinel or the end sentinel is absent,
  the patch fails with the error \<^verbatim>\<open>README is missing required GITHUB-STATS markers.\<close>
  (the specification's \<^verbatim>\<open>ConfigError\<close>) and the file is not modified: nothing is written.
\<close>

theorem injectStats_missing_marker:
  assumes "readme fs = Some content"
    and "\<not> sublist START_MARKER content \<or> \<not> sublist END_MARKER content"
  shows "injectStats statsBlock fs =
           (Inl (Error ''README is missing required GITHUB-STATS markers.''), fs)"
  using assms by (auto simp: injectStats_def string_includes_iff)

theorem injectStats_missing_marker_witness:
  "\<not> sublist END_MARKER missing_end_readme \<and>
   injectStats ''new'' \<lparr>readme = Some missing_end_readme, writes = []\<rparr> =
     (Inl (Error ''README is missing required GITHUB-STATS markers.''),
      \<lparr>readme = Some missing_end_readme, writes = []\<rparr>)"
proof -
  have "\<not> string_includes missing_end_readme END_MARKER"
    by (simp add: missing_end_readme_def START_MARKER_def END_MARKER_def)
  then have h: "\<not> sublist START_MARKER missing_end_readme \<or> \<not> sublist END_MARKER missing_end_readme"
    by (simp add: string_includes_iff)
  have r: "readme \<lparr>readme = Some missing_end_readme, writes = []\<rparr> = Some missing_end_readme"
    by simp
  from injectStats_missing_marker [OF r h, of "''new''"]
    \<open>\<not> string_includes missing_end_readme END_MARKER\<close>
  show ?thesis by (simp add: string_includes_iff)
qed

text \<open>
  C9.  For every file content in which both sentinels are present but no start sentinel
  is followed by an end sentinel (the end sentinel occurs only before the start
  sentinel), the patch does not fail: the pattern matches nothing and the file is
  written back with the content that was read.
\<close>

theorem injectStats_no_span:
  assumes "readme fs = Some content"
    and "sublist START_MARKER content" and "sublist END_MARKER content"
    and "\<not> (\<exists>a b c. content = a @ START_MARKER @ b @ END_MARKER @ c)"
  shows "regexExec content = None \<and>
         injectStats statsBlock fs =
           (Inr (), fs\<lparr>readme := Some content, writes := writes fs @ [content]\<rparr>)"
proof -
  have none: "regexExec content = None"
  proof (cases "regexExec content")
    case None
    then show ?thesis .
  next
    case (Some r)
    then obtain a m c where "regexExec content = Some (a, m, c)"
      by (cases r) auto
    from regexExec_sound [OF this] obtain b where
      "content = a @ START_MARKER @ b @ END_MARKER @ c" by auto
    with assms(4) show ?thesis by blast
  qed
  with assms(1,2,3) show ?thesis
    by (simp add: injectStats_def replace_def writeFileSync_def string_includes_iff)
qed

lemma reversed_readme_exec: "regexExec reversed_readme = None"
  by (simp add: reversed_readme_def START_MARKER_def END_MARKER_def matchPattern_def)

theorem injectStats_no_span_witness:
  "sublist START_MARKER reversed_readme \<and> sublist END_MARKER reversed_readme \<and>
   \<not> (\<exists>a b c. reversed_readme = a @ START_MARKER @ b @ END_MARKER @ c) \<and>
   injectStats ''new'' \<lparr>readme = Some reversed_readme, writes = []\<rparr> =
     (Inr (), \<lparr>readme = Some reversed_readme, writes = [reversed_readme]\<rparr>)"
proof -
  have s: "sublist START_MARKER reversed_readme"
    unfolding reversed_readme_def by (metis sublist_appendI append.assoc append_Nil2)
  have e: "sublist END_MARKER reversed_readme"
    unfolding reversed_readme_def by (rule sublist_append_rightI)
  have n: "\<not> (\<exists>a b c. reversed_readme = a @ START_MARKER @ b @ END_MARKER @ c)"
  proof
    assume "\<exists>a b c. reversed_readme = a @ START_MARKER @ b @ END_MARKER @ c"
    then obtain a b c where "reversed_readme = a @ START_MARKER @ b @ END_MARKER @ c"
      by blast
    from regexExec_complete [OF this] reversed_readme_exec show False by auto
  qed
  have r: "readme \<lparr>readme = Some reversed_readme, writes = []\<rparr> = Some reversed_readme"
    by simp
  from injectStats_no_span [OF r s e n, of "''new''"] s e n show ?thesis by simp
qed

text \<open>
  C10.  For every file content with two or more disjoint start-through-end spans, the
  patch replaces only the first span (leftmost start sentinel, first end sentinel after
  it); everything after that span, and so every later span with its sentinels and the
  text between them, is unchanged in the text written.
\<close>

theorem injectStats_later_span_kept:
  assumes "content = a1 @ START_MARKER @ b1 @ END_MARKER @ c1 @ START_MARKER @ b2 @ END_MARKER @ c2"
  shows "\<exists>a b mid.
           content = a @ START_MARKER @ b @ END_MARKER @
                     mid @ c1 @ START_MARKER @ b2 @ END_MARKER @ c2 \<and>
           (\<forall>a' b' c'. content = a' @ START_MARKER @ b' @ END_MARKER @ c' \<longrightarrow>
              length a \<le> length a') \<and>
           (\<forall>b' c'. content = a @ START_MARKER @ b' @ END_MARKER @ c' \<longrightarrow>
              length b \<le> length b') \<and>
           injectStats (renderStats toLocaleString st) \<lparr>readme = Some content, writes = ws\<rparr> =
             (Inr (),
              \<lparr>readme = Some (a @ renderStats toLocaleString st @
                               mid @ c1 @ START_MARKER @ b2 @ END_MARKER @ c2),
               writes = ws @ [a @ renderStats toLocaleString st @
                               mid @ c1 @ START_MARKER @ b2 @ END_MARKER @ c2]\<rparr>)"
proof -
  let ?tail = "c1 @ START_MARKER @ b2 @ END_MARKER @ c2"
  from first_span [OF assms] obtain a b c where
    r: "regexExec content = Some (a, START_MARKER @ b @ END_MARKER, c)"
       "content = a @ START_MARKER @ b @ END_MARKER @ c"
       "\<forall>a' b' c'. content = a' @ START_MARKER @ b' @ END_MARKER @ c' \<longrightarrow> length a \<le> length a'"
       "\<forall>b' c'. content = a @ START_MARKER @ b' @ END_MARKER @ c' \<longrightarrow> length b \<le> length b'"
    by blast
  from replace_span [OF assms] r(1) obtain mid where c: "c = mid @ ?tail"
    by auto
  from injectStats_match [OF r(1), of toLocaleString st ws] r(2,3,4) show ?thesis
    unfolding c by blast
qed

lemma two_span_readme_exec:
  "regexExec two_span_readme =
     Some (''a'', START_MARKER @ ''one'' @ END_MARKER,
           ''b'' @ START_MARKER @ ''two'' @ END_MARKER @ ''c'')"
  by (simp add: two_span_readme_def START_MARKER_def END_MARKER_def matchPattern_def)

theorem injectStats_later_span_kept_witness:
  "two_span_readme =
     ''a'' @ START_MARKER @ ''one'' @ END_MARKER @ ''b'' @ START_MARKER @ ''two'' @ END_MARKER @ ''c'' \<and>
   injectStats (renderStats grouped_decimal example_stats) \<lparr>readme = Some two_span_readme, writes = []\<rparr> =
     (Inr (),
      \<lparr>readme = Some (''a'' @ renderStats grouped_decimal example_stats @
                       ''b'' @ START_MARKER @ ''two'' @ END_MARKER @ ''c''),
       writes = [''a'' @ renderStats grouped_decimal example_stats @
                 ''b'' @ START_MARKER @ ''two'' @ END_MARKER @ ''c'']\<rparr>)"
proof -
  have h: "two_span_readme =
     ''a'' @ START_MARKER @ ''one'' @ END_MARKER @ ''b'' @ START_MARKER @ ''two'' @ END_MARKER @ ''c''"
    by (simp add: two_span_readme_def)
  from injectStats_later_span_kept [OF h, of grouped_decimal example_stats "[]"] obtain a mid where
    "injectStats (renderStats grouped_decimal example_stats) \<lparr>readme = Some two_span_readme, writes = []\<rparr> =
       (Inr (),
        \<lparr>readme = Some (a @ renderStats grouped_decimal example_stats @
                         mid @ ''b'' @ START_MARKER @ ''two'' @ END_MARKER @ ''c''),
         writes = [] @ [a @ renderStats grouped_decimal example_stats @
                         mid @ ''b'' @ START_MARKER @ ''two'' @ END_MARKER @ ''c'']\<rparr>)"
    by blast
  moreover have
    "injectStats (renderStats grouped_decimal example_stats) \<lparr>readme = Some two_span_readme, writes = []\<rparr> =
       (Inr (),
        \<lparr>readme = Some (''a'' @ renderStats grouped_decimal example_stats @
                         ''b'' @ START_MARKER @ ''two'' @ END_MARKER @ ''c''),
         writes = [''a'' @ renderStats grouped_decimal example_stats @
                   ''b'' @ START_MARKER @ ''two'' @ END_MARKER @ ''c'']\<rparr>)"
    using injectStats_match [OF two_span_readme_exec, of grouped_decimal example_stats "[]"] by simp
  ultimately show ?thesis using h by simp
qed

end
